theory Spec2Isabelle
  imports Complex_Main "HOL-Library.Multiset" "HOL-Library.Product_Lexorder"
    "HOL-Library.Char_ord" "HOL-Library.List_Lexorder"
begin

section \<open>Offer counting of the dashboard: \<open>countOfferEvents\<close>\<close>

text \<open>
  This theory embeds \<open>countOfferEvents\<close> of \<open>dashboard/utils/dataProcessing.js\<close> together
  with \<open>PRE_OFFER_STAGES\<close> of \<open>dashboard/utils/constants.js\<close>.

  Conventions of the embedding.
  \<^item> A JavaScript \<open>Date\<close> is its time value: an integral number of milliseconds since the
    epoch, or \<open>NaN\<close> for an Invalid Date. The property \<open>changed_at\<close> of a record is a text;
    the embedding holds it in two fields: \<open>changed_at_text\<close>, the text itself, which the
    source copies into the offer event, and \<open>changed_at\<close>, the \<open>Date\<close> that
    \<open>new Date(change.changed_at)\<close> builds from that text. \<open>Invalid_Date\<close> stands for a text
    that does not parse.
  \<^item> A JavaScript number that may be \<open>NaN\<close> is an \<open>option\<close>, \<open>None\<close> being \<open>NaN\<close>; every
    comparison with \<open>NaN\<close> is false. Differences of time values are integers and are computed
    exactly; the quotient \<open>hoursDiff\<close> is an exact rational (rounding the quotient to a
    double does not change its comparison with 24, since the differences are whole
    milliseconds).
  \<^item> \<open>stage_from\<close> and \<open>stage_to\<close> are \<open>string option\<close>, \<open>None\<close> being \<open>null\<close> or a missing
    property; \<open>===\<close> and \<open>Array.prototype.includes\<close> never identify it with a stage name.
  \<^item> \<open>person_id\<close> is a string, the type on which \<open>localeCompare\<close> is defined; other
    values, on which the comparator of the source may throw, are outside the embedding. The
    collation of the host is a parameter, \<open>collationKey\<close>: \<open>a.localeCompare(b)\<close> is negative,
    zero or positive as the collation key of \<open>a\<close> is below, equal to or above that of \<open>b\<close>.
    Two different ids may have the same key.
  \<^item> \<open>lastOfferTimeByLead\<close> is a plain object: reading a property that was never written
    finds what every object inherits from \<open>Object.prototype\<close>, for the names listed in
    \<open>OBJECT_PROTOTYPE_PROPERTIES\<close>, and \<open>undefined\<close> for every other name.
  \<^item> \<open>Array.prototype.sort\<close> is stable. When the comparator is consistent (every
    \<open>changed_at\<close> parses and different ids have different collation keys) its result is
    determined, and is the one of \<open>sortEvents\<close> (\<open>sortEvents_sort_key\<close> below). Otherwise the
    order is left to the implementation; \<open>sortEvents\<close> is then one stable insertion sort, which
    reads a comparator result \<open>NaN\<close> as \<open>0\<close> as the abstract operation SortCompare does.
    The general statements below that depend on the sorted order are made for consistent
    comparators; the closed examples with an Invalid Date use arrays of one lead in which no
    comparison, in either direction, puts a later element before an earlier one, so that a
    stable sort leaves them as they are.
  \<^item> The \<open>console.log\<close> calls have no effect on the result and are left out.
\<close>

subsection \<open>Dates and numbers\<close>

datatype date = Date int | Invalid_Date

fun date_minus :: "date \<Rightarrow> date \<Rightarrow> int option" where
  "date_minus (Date a) (Date b) = Some (a - b)"
| "date_minus _ _ = None"

fun date_ge :: "date \<Rightarrow> date \<Rightarrow> bool" where
  "date_ge (Date a) (Date b) = (a \<ge> b)"
| "date_ge _ _ = False"

fun date_le :: "date \<Rightarrow> date \<Rightarrow> bool" where
  "date_le (Date a) (Date b) = (a \<le> b)"
| "date_le _ _ = False"

fun num_ge :: "rat option \<Rightarrow> rat \<Rightarrow> bool" where
  "num_ge (Some x) y = (x \<ge> y)"
| "num_ge None y = False"

subsection \<open>Constants\<close>

definition OFFERS_MADE_STAGE :: string where
  "OFFERS_MADE_STAGE = ''ACQ - Offers Made''"

definition OFFER_NOT_ACCEPTED_STAGE :: string where
  "OFFER_NOT_ACCEPTED_STAGE = ''ACQ - Offer Not Accepted''"

definition CONTRACT_SENT_STAGE :: string where
  "CONTRACT_SENT_STAGE = ''ACQ - Contract Sent''"

definition PRE_OFFER_STAGES :: "string list" where
  "PRE_OFFER_STAGES =
    [''ACQ - Qualified'',
     ''ACQ - Needs Offer'',
     ''Qualified Phase 2 - Day 3 to 2 Weeks'',
     ''Qualified Phase 3 - 2 Weeks to 4 Weeks'',
     ''ACQ - Listed on Market'',
     ''ACQ - Went Cold - Drip Campaign'',
     ''ACQ - Price Motivated'',
     ''ACQ - Not Ready to Sell'',
     ''ACQ - New Lead'',
     ''ACQ - Contacted'',
     ''ACQ - Attempted Contact'']"

text \<open>\<open>PRE_OFFER_STAGES.includes(stageFrom)\<close>: \<open>null\<close> is no member.\<close>

fun includes_stage :: "string list \<Rightarrow> string option \<Rightarrow> bool" where
  "includes_stage xs None = False"
| "includes_stage xs (Some s) = (s \<in> set xs)"

text \<open>
  The names of the properties of \<open>Object.prototype\<close>, which the object literal \<open>{}\<close> of
  \<open>lastOfferTimeByLead\<close> inherits. The value of each is a function or an object.
\<close>

definition OBJECT_PROTOTYPE_PROPERTIES :: "string list" where
  "OBJECT_PROTOTYPE_PROPERTIES =
    [''constructor'',
     ''hasOwnProperty'',
     ''isPrototypeOf'',
     ''propertyIsEnumerable'',
     ''toLocaleString'',
     ''toString'',
     ''valueOf'',
     ''__proto__'',
     ''__defineGetter__'',
     ''__defineSetter__'',
     ''__lookupGetter__'',
     ''__lookupSetter__'']"

subsection \<open>Records\<close>

record stage_change =
  person_id :: string
  first_name :: string
  last_name :: string
  stage_from :: "string option"
  stage_to :: "string option"
  changed_at_text :: string
  changed_at :: date

datatype offer_type = direct | implicit_not_accepted | implicit_contract_sent

record offer_event = stage_change +
  offer_type :: offer_type

record offer_result =
  count_res :: nat
  offerEvents :: "offer_event list"

subsection \<open>The date filter\<close>

definition inDateRange :: "date \<Rightarrow> date \<Rightarrow> stage_change \<Rightarrow> bool" where
  "inDateRange startDate endDate change =
    (let changeDate = changed_at change
     in date_ge changeDate startDate \<and> date_le changeDate endDate)"

fun filterChanges ::
  "stage_change list \<Rightarrow> date option \<Rightarrow> date option \<Rightarrow> stage_change list" where
  "filterChanges stageChanges (Some startDate) (Some endDate) =
     filter (inDateRange startDate endDate) stageChanges"
| "filterChanges stageChanges _ _ = stageChanges"

subsection \<open>Classification\<close>

definition classify :: "stage_change \<Rightarrow> offer_type option" where
  "classify change =
    (let stageTo = stage_to change; stageFrom = stage_from change
     in if stageTo = Some OFFERS_MADE_STAGE then Some direct
        else if stageTo = Some OFFER_NOT_ACCEPTED_STAGE \<and> includes_stage PRE_OFFER_STAGES stageFrom
          then Some implicit_not_accepted
        else if stageTo = Some CONTRACT_SENT_STAGE \<and> includes_stage PRE_OFFER_STAGES stageFrom
          then Some implicit_contract_sent
        else None)"

definition offerEvent :: "stage_change \<Rightarrow> offer_type \<Rightarrow> offer_event" where
  "offerEvent change offerType =
    \<lparr>person_id = person_id change,
     first_name = first_name change,
     last_name = last_name change,
     stage_from = stage_from change,
     stage_to = stage_to change,
     changed_at_text = changed_at_text change,
     changed_at = changed_at change,
     offer_type = offerType\<rparr>"

fun collectOfferEvents :: "stage_change list \<Rightarrow> offer_event list" where
  "collectOfferEvents [] = []"
| "collectOfferEvents (change # rest) =
    (case classify change of
       None \<Rightarrow> collectOfferEvents rest
     | Some offerType \<Rightarrow> offerEvent change offerType # collectOfferEvents rest)"

subsection \<open>Sorting by lead, then by time\<close>

definition localeCompare :: "(string \<Rightarrow> 'k::linorder) \<Rightarrow> string \<Rightarrow> string \<Rightarrow> int" where
  "localeCompare collationKey a b =
    (if collationKey a < collationKey b then - 1
     else if collationKey a = collationKey b then 0 else 1)"

definition compareFn ::
  "(string \<Rightarrow> 'k::linorder) \<Rightarrow> offer_event \<Rightarrow> offer_event \<Rightarrow> int option" where
  "compareFn collationKey a b =
    (if person_id a \<noteq> person_id b
     then Some (localeCompare collationKey (person_id a) (person_id b))
     else date_minus (changed_at a) (changed_at b))"

definition sortCompare ::
  "(string \<Rightarrow> 'k::linorder) \<Rightarrow> offer_event \<Rightarrow> offer_event \<Rightarrow> int" where
  "sortCompare collationKey a b =
    (case compareFn collationKey a b of None \<Rightarrow> 0 | Some v \<Rightarrow> v)"

fun insertSorted ::
  "(string \<Rightarrow> 'k::linorder) \<Rightarrow> offer_event \<Rightarrow> offer_event list \<Rightarrow> offer_event list" where
  "insertSorted collationKey x [] = [x]"
| "insertSorted collationKey x (y # ys) =
    (if sortCompare collationKey x y \<le> 0 then x # y # ys
     else y # insertSorted collationKey x ys)"

fun sortEvents :: "(string \<Rightarrow> 'k::linorder) \<Rightarrow> offer_event list \<Rightarrow> offer_event list" where
  "sortEvents collationKey [] = []"
| "sortEvents collationKey (x # xs) = insertSorted collationKey x (sortEvents collationKey xs)"

subsection \<open>The 24-hour deduplication\<close>

definition hoursDiff :: "date \<Rightarrow> date \<Rightarrow> rat option" where
  "hoursDiff eventTime lastOfferTime =
    map_option (\<lambda>d. of_int d / (1000 * 60 * 60)) (date_minus eventTime lastOfferTime)"

text \<open>
  What \<open>lastOfferTimeByLead[personId]\<close> reads: the \<open>Date\<close> written for the lead, else the
  inherited function or object when the id is the name of a property of \<open>Object.prototype\<close>,
  else \<open>undefined\<close>. The map holds the properties that the loop has written.
\<close>

datatype property_value = Undefined | DateObject date | InheritedObject

definition getProperty :: "(string \<rightharpoonup> date) \<Rightarrow> string \<Rightarrow> property_value" where
  "getProperty written name =
    (case written name of
       Some d \<Rightarrow> DateObject d
     | None \<Rightarrow> if name \<in> set OBJECT_PROTOTYPE_PROPERTIES then InheritedObject else Undefined)"

text \<open>
  One round of the \<open>forEach\<close> over the sorted events; the state is the pair of
  \<open>dedupedOfferEvents\<close> and \<open>lastOfferTimeByLead\<close>. An inherited value is truthy, so the
  \<open>else\<close> branch runs; there \<open>eventTime - lastOfferTime\<close> is \<open>NaN\<close>, \<open>hoursDiff >= 24\<close> is
  false, and nothing is pushed or written.
\<close>

definition dedupStep ::
  "offer_event \<Rightarrow> offer_event list \<times> (string \<rightharpoonup> date)
    \<Rightarrow> offer_event list \<times> (string \<rightharpoonup> date)" where
  "dedupStep event st =
    (let dedupedOfferEvents = fst st; lastOfferTimeByLead = snd st;
         personId = person_id event; eventTime = changed_at event
     in case getProperty lastOfferTimeByLead personId of
          Undefined \<Rightarrow>
            (dedupedOfferEvents @ [event], lastOfferTimeByLead(personId \<mapsto> eventTime))
        | DateObject lastOfferTime \<Rightarrow>
           (if num_ge (hoursDiff eventTime lastOfferTime) 24
            then (dedupedOfferEvents @ [event], lastOfferTimeByLead(personId \<mapsto> eventTime))
            else st)
        | InheritedObject \<Rightarrow> st)"

definition dedupe :: "offer_event list \<Rightarrow> offer_event list" where
  "dedupe events = fst (fold dedupStep events ([], Map.empty))"

subsection \<open>The whole function\<close>

definition countOfferEvents ::
  "(string \<Rightarrow> 'k::linorder) \<Rightarrow> stage_change list \<Rightarrow> date option \<Rightarrow> date option
    \<Rightarrow> offer_result" where
  "countOfferEvents collationKey stageChanges startDate endDate =
    (let filteredChanges = filterChanges stageChanges startDate endDate;
         sortedOfferEvents = sortEvents collationKey (collectOfferEvents filteredChanges);
         dedupedOfferEvents = dedupe sortedOfferEvents
     in \<lparr>count_res = length dedupedOfferEvents, offerEvents = dedupedOfferEvents\<rparr>)"

section \<open>The specification's view of one lead\<close>

text \<open>
  The specification describes the deduplicator lead by lead: group the offer events by lead,
  sort each group by \<open>changed_at\<close> with a stable sort, and walk it with \<open>last_kept_time\<close>.
  The definitions of this section follow that wording; they are compared with the functions
  embedded from the source above. \<open>ofLead p\<close> selects the events of lead \<open>p\<close>, in order.
\<close>

definition ofLead :: "string \<Rightarrow> offer_event list \<Rightarrow> offer_event list" where
  "ofLead p events = filter (\<lambda>e. person_id e = p) events"

text \<open>
  \<open>atLeast24h last_kept_time t\<close>: the instant \<open>t\<close> is 24 hours or more after
  \<open>last_kept_time\<close>; false when either does not parse.
\<close>

fun atLeast24h :: "date \<Rightarrow> date \<Rightarrow> bool" where
  "atLeast24h (Date last_kept_time) (Date t) = (t - last_kept_time \<ge> 24 * 60 * 60 * 1000)"
| "atLeast24h _ _ = False"

text \<open>
  The walk of step 3: the first event is kept; a later event is kept when it is at least
  24 hours after the last kept one, which then becomes the anchor; else it is dropped.
\<close>

fun walkLead :: "date option \<Rightarrow> offer_event list \<Rightarrow> offer_event list" where
  "walkLead last_kept_time [] = []"
| "walkLead None (e # es) = e # walkLead (Some (changed_at e)) es"
| "walkLead (Some last_kept_time) (e # es) =
    (if atLeast24h last_kept_time (changed_at e) then e # walkLead (Some (changed_at e)) es
     else walkLead (Some last_kept_time) es)"

text \<open>
  The stable sort of step 2, by \<open>changed_at\<close> alone. A timestamp that does not parse
  compares as a tie.
\<close>

fun notAfter :: "date \<Rightarrow> date \<Rightarrow> bool" where
  "notAfter (Date a) (Date b) = (a \<le> b)"
| "notAfter _ _ = True"



text \<open>The invariant: every consecutive pair of instants is at least 24 hours apart.\<close>

fun spaced24h :: "date list \<Rightarrow> bool" where
  "spaced24h (a # b # rest) = (atLeast24h a b \<and> spaced24h (b # rest))"
| "spaced24h _ = True"

text \<open>
  The \<open>forEach\<close> of the source read as a recursion that returns the events it pushes, for
  given written properties of \<open>lastOfferTimeByLead\<close>; \<open>fold_dedupStep\<close> below shows it equal
  to the fold.
\<close>

fun dedupLoop :: "(string \<rightharpoonup> date) \<Rightarrow> offer_event list \<Rightarrow> offer_event list" where
  "dedupLoop m [] = []"
| "dedupLoop m (e # es) =
    (case getProperty m (person_id e) of
       Undefined \<Rightarrow> e # dedupLoop (m(person_id e \<mapsto> changed_at e)) es
     | DateObject lastOfferTime \<Rightarrow>
        (if atLeast24h lastOfferTime (changed_at e)
         then e # dedupLoop (m(person_id e \<mapsto> changed_at e)) es
         else dedupLoop m es)
     | InheritedObject \<Rightarrow> dedupLoop m es)"

text \<open>
  A record that moves lead \<open>p\<close> to the stage "ACQ - Offers Made", with \<open>changed_at\<close> the
  text \<open>txt\<close> that parses to the instant \<open>t\<close>.
\<close>

abbreviation directOffer ::
  "string \<Rightarrow> string \<Rightarrow> string \<Rightarrow> string option \<Rightarrow> string \<Rightarrow> int \<Rightarrow> stage_change" where
  "directOffer p fname lname sfrom txt t \<equiv>
    \<lparr>person_id = p, first_name = fname, last_name = lname, stage_from = sfrom,
     stage_to = Some OFFERS_MADE_STAGE, changed_at_text = txt, changed_at = Date t\<rparr>"

text \<open>The lead and the instant of an offer event.\<close>

definition leadTime :: "offer_event \<Rightarrow> string \<times> date" where
  "leadTime e = (person_id e, changed_at e)"

text \<open>
  For events whose \<open>changed_at\<close> parses and whose ids have different collation keys, the
  comparator of the source orders by collation key and then by time value, which is the
  lexicographic order of \<open>sortKey\<close>.
\<close>

fun timeValue :: "date \<Rightarrow> int" where
  "timeValue (Date t) = t"
| "timeValue Invalid_Date = 0"

definition sortKey :: "(string \<Rightarrow> 'k::linorder) \<Rightarrow> offer_event \<Rightarrow> 'k \<times> int" where
  "sortKey collationKey e = (collationKey (person_id e), timeValue (changed_at e))"

section \<open>Auxiliary facts\<close>

lemma hoursDiff_ge_24: "num_ge (hoursDiff t l) 24 = atLeast24h l t"
proof (cases t; cases l)
  fix a b
  assume t: "t = Date a" and l: "l = Date b"
  have "(rat_of_int b + 86400000 \<le> rat_of_int a) = (rat_of_int (b + 86400000) \<le> rat_of_int a)"
    by simp
  also have "\<dots> = (b + 86400000 \<le> a)"
    by (rule of_int_le_iff)
  finally show ?thesis
    using t l by (simp add: hoursDiff_def field_simps)
qed (simp_all add: hoursDiff_def)

lemma dedupStep_dedupLoop:
  "fst (dedupStep e (acc, m)) @ dedupLoop (snd (dedupStep e (acc, m))) es =
   acc @ dedupLoop m (e # es)"
  by (cases "getProperty m (person_id e)") (simp_all add: dedupStep_def hoursDiff_ge_24)

lemma fold_dedupStep:
  "fst (fold dedupStep es (acc, m)) = acc @ dedupLoop m es"
proof (induction es arbitrary: acc m)
  case Nil
  show ?case by simp
next
  case (Cons e es)
  obtain acc' m' where step: "dedupStep e (acc, m) = (acc', m')"
    by (cases "dedupStep e (acc, m)")
  have "fst (fold dedupStep (e # es) (acc, m)) = fst (fold dedupStep es (acc', m'))"
    by (simp add: step)
  also have "\<dots> = acc' @ dedupLoop m' es"
    by (rule Cons.IH)
  also have "\<dots> = acc @ dedupLoop m (e # es)"
    using dedupStep_dedupLoop [of e acc m es] by (simp only: step fst_conv snd_conv)
  finally show ?case .
qed

lemma dedupe_dedupLoop: "dedupe es = dedupLoop Map.empty es"
  by (simp add: dedupe_def fold_dedupStep)

lemma ofLead_Nil [simp]: "ofLead p [] = []"
  by (simp add: ofLead_def)

lemma ofLead_Cons [simp]:
  "ofLead p (e # es) = (if person_id e = p then e # ofLead p es else ofLead p es)"
  by (simp add: ofLead_def)

lemma getProperty_ordinary:
  "p \<notin> set OBJECT_PROTOTYPE_PROPERTIES \<Longrightarrow>
   getProperty m p = (case m p of None \<Rightarrow> Undefined | Some d \<Rightarrow> DateObject d)"
  by (simp add: getProperty_def split: option.splits)

lemma getProperty_inherited:
  "p \<in> set OBJECT_PROTOTYPE_PROPERTIES \<Longrightarrow> m p = None \<Longrightarrow> getProperty m p = InheritedObject"
  by (simp add: getProperty_def)

text \<open>
  For a lead whose id names no inherited property, the loop restricted to the lead is the
  walk of the specification. For a lead whose id names one, nothing is ever kept.
\<close>

lemma ofLead_dedupLoop:
  "p \<notin> set OBJECT_PROTOTYPE_PROPERTIES \<Longrightarrow>
   ofLead p (dedupLoop m es) = walkLead (m p) (ofLead p es)"
proof (induction es arbitrary: m)
  case Nil
  show ?case by simp
next
  case (Cons e es)
  note IH = Cons.IH [OF Cons.prems]
  show ?case
  proof (cases "person_id e = p")
    case True
    then show ?thesis
      using Cons.prems
      by (cases "m p") (auto simp: getProperty_ordinary IH)
  next
    case False
    then show ?thesis
      by (cases "getProperty m (person_id e)") (simp_all add: IH)
  qed
qed

lemma ofLead_dedupLoop_inherited:
  "p \<in> set OBJECT_PROTOTYPE_PROPERTIES \<Longrightarrow> m p = None \<Longrightarrow> ofLead p (dedupLoop m es) = []"
proof (induction es arbitrary: m)
  case Nil
  show ?case by simp
next
  case (Cons e es)
  show ?case
  proof (cases "person_id e = p")
    case True
    then show ?thesis
      using Cons by (simp add: getProperty_inherited)
  next
    case False
    with Cons.prems have upd: "(m(person_id e \<mapsto> changed_at e)) p = None"
      by simp
    have kept: "ofLead p (dedupLoop (m(person_id e \<mapsto> changed_at e)) es) = []"
      using Cons.prems(1) upd by (rule Cons.IH)
    have skipped: "ofLead p (dedupLoop m es) = []"
      using Cons.prems by (rule Cons.IH)
    from False show ?thesis
      by (cases "getProperty m (person_id e)") (simp_all add: kept skipped del: fun_upd_apply)
  qed
qed

lemma sortCompare_same_lead:
  "person_id x = person_id y \<Longrightarrow>
   (sortCompare key x y \<le> 0) = notAfter (changed_at x) (changed_at y)"
  by (cases "changed_at x"; cases "changed_at y") (simp_all add: sortCompare_def compareFn_def)

lemma sortCompare_other_lead:
  "person_id x \<noteq> person_id y \<Longrightarrow>
   (sortCompare key x y \<le> 0) = (key (person_id x) \<le> key (person_id y))"
  by (auto simp: sortCompare_def compareFn_def localeCompare_def)

lemma set_insertSorted: "set (insertSorted key x ys) = insert x (set ys)"
  by (induction ys) auto

lemma set_sortEvents: "set (sortEvents key es) = set es"
  by (induction es) (simp_all add: set_insertSorted)






lemma spaced24h_walkLead_Some:
  "spaced24h (l # map changed_at (walkLead (Some l) es))"
  by (induction es arbitrary: l) simp_all

lemma spaced24h_walkLead: "spaced24h (map changed_at (walkLead k es))"
proof (cases k)
  case None
  then show ?thesis
    using spaced24h_walkLead_Some by (cases es) simp_all
next
  case (Some l)
  have "spaced24h (l # map changed_at (walkLead (Some l) es))"
    by (rule spaced24h_walkLead_Some)
  with Some show ?thesis
    by (cases "walkLead (Some l) es") simp_all
qed

lemma spaced24h_ofLead_dedupLoop:
  "spaced24h (map changed_at (ofLead p (dedupLoop Map.empty es)))"
proof (cases "p \<in> set OBJECT_PROTOTYPE_PROPERTIES")
  case True
  then show ?thesis by (simp add: ofLead_dedupLoop_inherited)
next
  case False
  then show ?thesis by (simp add: ofLead_dedupLoop spaced24h_walkLead)
qed

lemma includes_stage_iff: "includes_stage xs v = (v \<in> Some ` set xs)"
  by (cases v) auto

lemma stage_names_distinct:
  "OFFERS_MADE_STAGE \<noteq> OFFER_NOT_ACCEPTED_STAGE"
  "OFFERS_MADE_STAGE \<noteq> CONTRACT_SENT_STAGE"
  "OFFER_NOT_ACCEPTED_STAGE \<noteq> CONTRACT_SENT_STAGE"
  by (simp_all add: OFFERS_MADE_STAGE_def OFFER_NOT_ACCEPTED_STAGE_def CONTRACT_SENT_STAGE_def)

lemma collectOfferEvents_map_filter:
  "collectOfferEvents cs = List.map_filter (\<lambda>c. map_option (offerEvent c) (classify c)) cs"
  by (induction cs) (simp_all add: List.map_filter_simps split: option.splits)

lemma collectOfferEvents_append:
  "collectOfferEvents (xs @ ys) = collectOfferEvents xs @ collectOfferEvents ys"
  by (induction xs) (simp_all split: option.splits)

lemma filterChanges_append:
  "filterChanges (xs @ ys) s e = filterChanges xs s e @ filterChanges ys s e"
  by (cases s; cases e) simp_all

lemma set_dedupLoop: "set (dedupLoop m es) \<subseteq> set es"
proof (induction es arbitrary: m)
  case Nil
  show ?case by simp
next
  case (Cons e es)
  show ?case
    using Cons.IH [of m] Cons.IH [of "m(person_id e \<mapsto> changed_at e)"]
    by (cases "getProperty m (person_id e)") (auto simp del: fun_upd_apply)
qed

lemma offerEvents_countOfferEvents:
  "offerEvents (countOfferEvents key cs s e) =
     dedupLoop Map.empty (sortEvents key (collectOfferEvents (filterChanges cs s e)))"
  by (simp add: countOfferEvents_def Let_def dedupe_dedupLoop)

lemma count_res_countOfferEvents:
  "count_res (countOfferEvents key cs s e) = length (offerEvents (countOfferEvents key cs s e))"
  by (simp add: countOfferEvents_def Let_def)

lemma set_offerEvents_countOfferEvents:
  "set (offerEvents (countOfferEvents key cs s e)) \<subseteq> set (collectOfferEvents (filterChanges cs s e))"
  using set_dedupLoop [of Map.empty "sortEvents key (collectOfferEvents (filterChanges cs s e))"]
  by (simp add: offerEvents_countOfferEvents set_sortEvents)

lemma collect_filterChanges_drop:
  "classify c = None \<Longrightarrow>
   collectOfferEvents (filterChanges (before @ c # after) s e) =
   collectOfferEvents (filterChanges (before @ after) s e)"
  by (cases s; cases e) (simp_all add: collectOfferEvents_append)

lemma countOfferEvents_drop:
  "classify c = None \<Longrightarrow>
   countOfferEvents key (before @ c # after) s e = countOfferEvents key (before @ after) s e"
  by (simp add: countOfferEvents_def collect_filterChanges_drop)

text \<open>Each collected event carries the fields of its record and the type of its rule.\<close>

lemma truncate_offerEvent: "stage_change.truncate (offerEvent c ty) = c"
  by (simp add: offerEvent_def stage_change.truncate_def)

lemma offer_type_offerEvent: "offer_type (offerEvent c ty) = ty"
  by (simp add: offerEvent_def)

lemma truncate_collectOfferEvents:
  "map stage_change.truncate (collectOfferEvents cs) = filter (\<lambda>c. classify c \<noteq> None) cs"
  by (induction cs) (auto simp: truncate_offerEvent split: option.splits)

lemma offer_type_collectOfferEvents:
  "map (\<lambda>e. Some (offer_type e)) (collectOfferEvents cs) =
   filter (\<lambda>ty. ty \<noteq> None) (map classify cs)"
  by (induction cs) (auto simp: offer_type_offerEvent split: option.splits)

lemma classify_collectOfferEvents:
  "e \<in> set (collectOfferEvents cs) \<Longrightarrow> classify (stage_change.truncate e) = Some (offer_type e)"
  by (induction cs)
    (auto simp: truncate_offerEvent offer_type_offerEvent split: option.splits)

text \<open>
  With a consistent comparator the sort of the source is the stable sort by \<open>sortKey\<close>, the
  one result that \<open>Array.prototype.sort\<close> may return.
\<close>

lemma sortCompare_sortKey:
  assumes "changed_at x \<noteq> Invalid_Date" and "changed_at y \<noteq> Invalid_Date"
    and "inj_on key {person_id x, person_id y}"
  shows "(sortCompare key x y \<le> 0) = (sortKey key x \<le> sortKey key y)"
proof (cases "person_id x = person_id y")
  case True
  from assms obtain a b where "changed_at x = Date a" "changed_at y = Date b"
    by (cases "changed_at x"; cases "changed_at y") auto
  with True show ?thesis
    by (simp add: sortCompare_same_lead sortKey_def)
next
  case False
  with assms(3) have "key (person_id x) \<noteq> key (person_id y)"
    by (auto simp: inj_on_def)
  with False show ?thesis
    by (auto simp: sortCompare_other_lead sortKey_def)
qed

lemma insertSorted_insort_key:
  "changed_at x \<noteq> Invalid_Date \<Longrightarrow> Invalid_Date \<notin> changed_at ` set ys \<Longrightarrow>
   inj_on key (person_id ` insert x (set ys)) \<Longrightarrow>
   insertSorted key x ys = insort_key (sortKey key) x ys"
proof (induction ys)
  case Nil
  show ?case by simp
next
  case (Cons y ys)
  from Cons.prems have "inj_on key {person_id x, person_id y}"
    by (auto simp: inj_on_def)
  with Cons.prems have cmp: "(sortCompare key x y \<le> 0) = (sortKey key x \<le> sortKey key y)"
    by (intro sortCompare_sortKey) auto
  from Cons.prems have "inj_on key (person_id ` insert x (set ys))"
    by (auto simp: inj_on_def)
  with Cons have "insertSorted key x ys = insort_key (sortKey key) x ys"
    by auto
  with cmp show ?case by simp
qed

lemma sortEvents_sort_key:
  "Invalid_Date \<notin> changed_at ` set es \<Longrightarrow> inj_on key (person_id ` set es) \<Longrightarrow>
   sortEvents key es = sort_key (sortKey key) es"
proof (induction es)
  case Nil
  show ?case by simp
next
  case (Cons x xs)
  from Cons.prems have inj: "inj_on key (person_id ` set xs)"
    by (auto simp: inj_on_def)
  with Cons have "sortEvents key xs = sort_key (sortKey key) xs" by auto
  moreover have "Invalid_Date \<notin> changed_at ` set (sort_key (sortKey key) xs)"
    using Cons.prems by auto
  moreover have "changed_at x \<noteq> Invalid_Date"
    using Cons.prems by auto
  moreover have "inj_on key (person_id ` insert x (set (sort_key (sortKey key) xs)))"
    using Cons.prems by simp
  ultimately show ?case
    by (simp add: insertSorted_insort_key)
qed

lemma sortKey_sortEvents_perm:
  assumes "mset es' = mset es" and "Invalid_Date \<notin> changed_at ` set es"
    and "inj_on key (person_id ` set es)"
  shows "map (sortKey key) (sortEvents key es') = map (sortKey key) (sortEvents key es)"
proof -
  have same: "set es' = set es"
    using assms(1) by (rule mset_eq_setD)
  have "sort (map (sortKey key) es) = map (sortKey key) (sort_key (sortKey key) es')"
    by (rule properties_for_sort) (simp_all add: assms(1))
  moreover have "sort (map (sortKey key) es) = map (sortKey key) (sort_key (sortKey key) es)"
    by (rule properties_for_sort) simp_all
  ultimately show ?thesis
    using assms(2,3) same by (simp add: sortEvents_sort_key)
qed

lemma timeValue_inject:
  "a \<noteq> Invalid_Date \<Longrightarrow> b \<noteq> Invalid_Date \<Longrightarrow> timeValue a = timeValue b \<Longrightarrow> a = b"
  by (cases a; cases b) simp_all

lemma leadTime_of_sortKey:
  assumes "sortKey key x = sortKey key y" and "x \<in> A" and "y \<in> A"
    and "inj_on key (person_id ` A)" and "Invalid_Date \<notin> changed_at ` A"
  shows "leadTime x = leadTime y"
proof -
  from assms(1) have k: "key (person_id x) = key (person_id y)"
    and t: "timeValue (changed_at x) = timeValue (changed_at y)"
    by (simp_all add: sortKey_def)
  from k assms(2,3,4) have "person_id x = person_id y"
    by (auto simp: inj_on_def)
  moreover from assms(2,3,5) have "changed_at x \<noteq> Invalid_Date" "changed_at y \<noteq> Invalid_Date"
    by (metis imageI)+
  with t have "changed_at x = changed_at y"
    by (simp add: timeValue_inject)
  ultimately show ?thesis
    by (simp add: leadTime_def)
qed

lemma map_leadTime_of_sortKey:
  "map (sortKey key) xs = map (sortKey key) ys \<Longrightarrow> set xs \<subseteq> A \<Longrightarrow> set ys \<subseteq> A \<Longrightarrow>
   inj_on key (person_id ` A) \<Longrightarrow> Invalid_Date \<notin> changed_at ` A \<Longrightarrow>
   map leadTime xs = map leadTime ys"
proof (induction xs arbitrary: ys)
  case Nil
  then show ?case by simp
next
  case (Cons x xs)
  then obtain y ys' where ys: "ys = y # ys'" and head: "sortKey key x = sortKey key y"
    and rest: "map (sortKey key) xs = map (sortKey key) ys'"
    by (cases ys) auto
  have "leadTime x = leadTime y"
    using head Cons.prems(2,3,4,5) unfolding ys by (intro leadTime_of_sortKey [of key x y A]) auto
  moreover have "map leadTime xs = map leadTime ys'"
    using rest Cons.prems(2,3,4,5) unfolding ys by (intro Cons.IH) auto
  ultimately show ?case
    by (simp add: ys)
qed

lemma leadTime_sortEvents_perm:
  assumes "mset es' = mset es" and "Invalid_Date \<notin> changed_at ` set es"
    and "inj_on key (person_id ` set es)"
  shows "map leadTime (sortEvents key es') = map leadTime (sortEvents key es)"
proof -
  have "set es' = set es"
    using assms(1) by (rule mset_eq_setD)
  then have "set (sortEvents key es') \<subseteq> set es" "set (sortEvents key es) \<subseteq> set es"
    by (simp_all add: set_sortEvents)
  with sortKey_sortEvents_perm [OF assms] assms(2,3) show ?thesis
    by (intro map_leadTime_of_sortKey [of key _ _ "set es"])
qed

text \<open>The loop reads the lead and the instant of an event, and nothing else.\<close>

lemma leadTime_dedupLoop:
  "map leadTime es' = map leadTime es \<Longrightarrow>
   map leadTime (dedupLoop m es') = map leadTime (dedupLoop m es)"
proof (induction es arbitrary: es' m)
  case Nil
  then show ?case by simp
next
  case (Cons x xs)
  then obtain y ys where es': "es' = y # ys" and head: "leadTime y = leadTime x"
    and rest: "map leadTime ys = map leadTime xs"
    by (cases es') auto
  from head have same: "person_id y = person_id x" "changed_at y = changed_at x"
    by (simp_all add: leadTime_def)
  have kept: "map leadTime (dedupLoop (m(person_id x \<mapsto> changed_at x)) ys) =
      map leadTime (dedupLoop (m(person_id x \<mapsto> changed_at x)) xs)"
    using rest by (rule Cons.IH)
  have skipped: "map leadTime (dedupLoop m ys) = map leadTime (dedupLoop m xs)"
    using rest by (rule Cons.IH)
  show ?case
    by (cases "getProperty m (person_id x)")
      (simp_all add: es' same head kept skipped del: fun_upd_apply)
qed

lemma mset_collectOfferEvents:
  "mset cs' = mset cs \<Longrightarrow> mset (collectOfferEvents cs') = mset (collectOfferEvents cs)"
proof -
  assume "mset cs' = mset cs"
  then have "image_mset (the \<circ> (\<lambda>c. map_option (offerEvent c) (classify c)))
        (filter_mset (\<lambda>c. map_option (offerEvent c) (classify c) \<noteq> None) (mset cs')) =
      image_mset (the \<circ> (\<lambda>c. map_option (offerEvent c) (classify c)))
        (filter_mset (\<lambda>c. map_option (offerEvent c) (classify c) \<noteq> None) (mset cs))"
    by (rule arg_cong)
  then show ?thesis
    unfolding collectOfferEvents_map_filter map_filter_def mset_map mset_filter .
qed

lemma mset_filterChanges:
  "mset cs' = mset cs \<Longrightarrow> mset (filterChanges cs' s e) = mset (filterChanges cs s e)"
  by (cases s; cases e) (simp_all add: mset_filter)

lemma changed_at_collectOfferEvents:
  "changed_at ` set (collectOfferEvents cs) = changed_at ` {c \<in> set cs. classify c \<noteq> None}"
  by (induction cs) (auto simp: offerEvent_def split: option.splits)

lemma person_id_collectOfferEvents:
  "person_id ` set (collectOfferEvents cs) = person_id ` {c \<in> set cs. classify c \<noteq> None}"
  by (induction cs) (auto simp: offerEvent_def split: option.splits)

lemma set_filterChanges: "set (filterChanges cs s e) \<subseteq> set cs"
  by (cases s; cases e) auto

lemma classify_Some_stage_to: "classify c = Some ty \<Longrightarrow> stage_to c \<noteq> None"
  by (auto simp: classify_def Let_def split: if_splits)

lemma stage_to_collectOfferEvents: "None \<notin> stage_to ` set (collectOfferEvents cs)"
  by (induction cs) (auto simp: offerEvent_def split: option.splits dest: classify_Some_stage_to)

lemma inDateRange_valid: "inDateRange s e c \<Longrightarrow> changed_at c \<noteq> Invalid_Date"
  by (auto simp: inDateRange_def Let_def)

lemma filterChanges_drop_invalid:
  "filterChanges (before @ c\<lparr>changed_at := Invalid_Date\<rparr> # after) (Some s) (Some e) =
   filterChanges (before @ after) (Some s) (Some e)"
  by (simp add: inDateRange_def)

text \<open>
  The offer events of a call parse when a window is given, since the date filter drops
  every record whose \<open>changed_at\<close> does not parse; without a window they parse when the
  offer records of the input do.
\<close>

lemma offers_parse:
  assumes "startDate = None \<or> endDate = None \<Longrightarrow>
      \<forall>c \<in> set cs. classify c \<noteq> None \<longrightarrow> changed_at c \<noteq> Invalid_Date"
  shows "Invalid_Date \<notin> changed_at ` set (collectOfferEvents (filterChanges cs startDate endDate))"
proof (cases "startDate = None \<or> endDate = None")
  case True
  then have "filterChanges cs startDate endDate = cs"
    by (cases startDate; cases endDate) auto
  with assms [OF True] show ?thesis
    unfolding changed_at_collectOfferEvents by auto
next
  case False
  then obtain s e where "startDate = Some s" "endDate = Some e"
    by auto
  then have "Invalid_Date \<notin> changed_at ` set (filterChanges cs startDate endDate)"
    by (auto dest: inDateRange_valid)
  then show ?thesis
    unfolding changed_at_collectOfferEvents by blast
qed

lemma offers_inj:
  assumes "inj_on key (person_id ` {c \<in> set cs. classify c \<noteq> None})"
  shows "inj_on key (person_id ` set (collectOfferEvents (filterChanges cs s e)))"
proof -
  have "person_id ` set (collectOfferEvents (filterChanges cs s e))
      \<subseteq> person_id ` {c \<in> set cs. classify c \<noteq> None}"
    unfolding person_id_collectOfferEvents using set_filterChanges [of cs s e] by blast
  with assms show ?thesis
    by (rule inj_on_subset)
qed






section \<open>Classification\<close>

text \<open>
  C1. A record is classified \<open>direct\<close> exactly when \<open>stage_to\<close> is "ACQ - Offers Made";
  \<open>implicit_not_accepted\<close> exactly when \<open>stage_to\<close> is "ACQ - Offer Not Accepted" and
  \<open>stage_from\<close> is one of \<open>PRE_OFFER_STAGES\<close>; \<open>implicit_contract_sent\<close> exactly when
  \<open>stage_to\<close> is "ACQ - Contract Sent" and \<open>stage_from\<close> is one of \<open>PRE_OFFER_STAGES\<close>;
  and it is no offer event exactly when none of the three rules applies. The offer event
  built for a record carries the fields of the record and, as \<open>offer_type\<close>, the type of its
  rule; the offer events are those of the classified records, in input order; every kept
  event is one of them, and its \<open>offer_type\<close> is the classification of its own stages. A
  record that is no offer event is in neither the offer events nor the result.
\<close>

theorem classify_priority_rules:
  "(classify c = Some direct) = (stage_to c = Some OFFERS_MADE_STAGE)
   \<and> (classify c = Some implicit_not_accepted) =
       (stage_to c = Some OFFER_NOT_ACCEPTED_STAGE \<and> stage_from c \<in> Some ` set PRE_OFFER_STAGES)
   \<and> (classify c = Some implicit_contract_sent) =
       (stage_to c = Some CONTRACT_SENT_STAGE \<and> stage_from c \<in> Some ` set PRE_OFFER_STAGES)
   \<and> (classify c = None) =
       (stage_to c \<noteq> Some OFFERS_MADE_STAGE
        \<and> \<not> (stage_to c = Some OFFER_NOT_ACCEPTED_STAGE \<and> stage_from c \<in> Some ` set PRE_OFFER_STAGES)
        \<and> \<not> (stage_to c = Some CONTRACT_SENT_STAGE \<and> stage_from c \<in> Some ` set PRE_OFFER_STAGES))
   \<and> offer_type (offerEvent c ty) = ty
   \<and> stage_change.truncate (offerEvent c ty) = c
   \<and> collectOfferEvents cs = List.map_filter (\<lambda>c. map_option (offerEvent c) (classify c)) cs
   \<and> map (\<lambda>e. Some (offer_type e)) (collectOfferEvents cs) =
       filter (\<lambda>ty. ty \<noteq> None) (map classify cs)
   \<and> map stage_change.truncate (collectOfferEvents cs) = filter (\<lambda>c. classify c \<noteq> None) cs
   \<and> set (offerEvents (countOfferEvents collationKey cs startDate endDate))
       \<subseteq> set (collectOfferEvents (filterChanges cs startDate endDate))
   \<and> map (\<lambda>e. classify (stage_change.truncate e))
         (offerEvents (countOfferEvents collationKey cs startDate endDate)) =
       map (\<lambda>e. Some (offer_type e))
         (offerEvents (countOfferEvents collationKey cs startDate endDate))"
proof -
  have kept: "set (offerEvents (countOfferEvents collationKey cs startDate endDate))
       \<subseteq> set (collectOfferEvents (filterChanges cs startDate endDate))"
    by (rule set_offerEvents_countOfferEvents)
  then have types: "map (\<lambda>e. classify (stage_change.truncate e))
         (offerEvents (countOfferEvents collationKey cs startDate endDate)) =
       map (\<lambda>e. Some (offer_type e))
         (offerEvents (countOfferEvents collationKey cs startDate endDate))"
    by (intro map_cong refl classify_collectOfferEvents) auto
  have r1: "(classify c = Some direct) = (stage_to c = Some OFFERS_MADE_STAGE)"
    by (simp add: classify_def Let_def)
  have r2: "(classify c = Some implicit_not_accepted) =
       (stage_to c = Some OFFER_NOT_ACCEPTED_STAGE \<and> stage_from c \<in> Some ` set PRE_OFFER_STAGES)"
    using stage_names_distinct by (auto simp: classify_def Let_def includes_stage_iff)
  have r3: "(classify c = Some implicit_contract_sent) =
       (stage_to c = Some CONTRACT_SENT_STAGE \<and> stage_from c \<in> Some ` set PRE_OFFER_STAGES)"
    using stage_names_distinct by (auto simp: classify_def Let_def includes_stage_iff)
  have r4: "(classify c = None) =
       (stage_to c \<noteq> Some OFFERS_MADE_STAGE
        \<and> \<not> (stage_to c = Some OFFER_NOT_ACCEPTED_STAGE \<and> stage_from c \<in> Some ` set PRE_OFFER_STAGES)
        \<and> \<not> (stage_to c = Some CONTRACT_SENT_STAGE \<and> stage_from c \<in> Some ` set PRE_OFFER_STAGES))"
    by (auto simp: classify_def Let_def includes_stage_iff)
  show ?thesis
    using r1 r2 r3 r4 kept types offer_type_offerEvent [of c ty] truncate_offerEvent [of c ty]
      collectOfferEvents_map_filter [of cs] offer_type_collectOfferEvents [of cs]
      truncate_collectOfferEvents [of cs]
    by blast
qed

section \<open>Deduplication\<close>




text \<open>
  C3. For every input, every pair of bounds and every lead, consecutive events kept for the
  lead, in output order, are at least 24 hours apart.
\<close>

theorem kept_events_24h_apart:
  "spaced24h (map changed_at
     (ofLead p (offerEvents (countOfferEvents collationKey cs startDate endDate))))"
  by (simp add: offerEvents_countOfferEvents spaced24h_ofLead_dedupLoop)

text \<open>
  C4. With both bounds given, the result is that of the unbounded call on the records whose
  \<open>changed_at\<close> lies in the closed interval from \<open>startDate\<close> to \<open>endDate\<close>, both ends
  included. For the lead L1, an offer one hour before \<open>startDate\<close> does not suppress the
  offer one hour after it.
\<close>

theorem window_self_contained:
  "countOfferEvents collationKey cs (Some startDate) (Some endDate) =
     countOfferEvents collationKey
       (filter (\<lambda>c. date_ge (changed_at c) startDate \<and> date_le (changed_at c) endDate) cs)
       None None
   \<and> (date_ge (Date t) (Date s) \<and> date_le (Date t) (Date e)) = (s \<le> t \<and> t \<le> e)
   \<and> countOfferEvents collationKey
        [directOffer ''L1'' fn1 ln1 sf1 tx1 (s - 3600000),
         directOffer ''L1'' fn2 ln2 sf2 tx2 (s + 3600000)]
        (Some (Date s)) (Some (Date (s + 86400000))) =
      \<lparr>count_res = 1,
       offerEvents = [offerEvent (directOffer ''L1'' fn2 ln2 sf2 tx2 (s + 3600000)) direct]\<rparr>"
proof -
  have "inDateRange startDate endDate =
      (\<lambda>c. date_ge (changed_at c) startDate \<and> date_le (changed_at c) endDate)"
    by (rule ext) (simp add: inDateRange_def Let_def)
  then have "countOfferEvents collationKey cs (Some startDate) (Some endDate) =
     countOfferEvents collationKey
       (filter (\<lambda>c. date_ge (changed_at c) startDate \<and> date_le (changed_at c) endDate) cs)
       None None"
    by (simp add: countOfferEvents_def)
  moreover have "countOfferEvents collationKey
        [directOffer ''L1'' fn1 ln1 sf1 tx1 (s - 3600000),
         directOffer ''L1'' fn2 ln2 sf2 tx2 (s + 3600000)]
        (Some (Date s)) (Some (Date (s + 86400000))) =
      \<lparr>count_res = 1,
       offerEvents = [offerEvent (directOffer ''L1'' fn2 ln2 sf2 tx2 (s + 3600000)) direct]\<rparr>"
    by (simp add: countOfferEvents_def inDateRange_def Let_def classify_def offerEvent_def
        dedupe_dedupLoop getProperty_def OBJECT_PROTOTYPE_PROPERTIES_def)
  ultimately show ?thesis by simp
qed




text \<open>
  C8. A record whose \<open>stage_from\<close> is \<open>null\<close> is never classified as an implicit offer; it
  is a direct offer when \<open>stage_to\<close> is "ACQ - Offers Made". A record with \<open>stage_from\<close>
  \<open>null\<close> and \<open>stage_to\<close> "ACQ - Offer Not Accepted" changes nothing in the result.
\<close>

theorem null_stage_from_never_implicit:
  "classify (c\<lparr>stage_from := None\<rparr>) \<noteq> Some implicit_not_accepted
   \<and> classify (c\<lparr>stage_from := None\<rparr>) \<noteq> Some implicit_contract_sent
   \<and> classify (c\<lparr>stage_from := None, stage_to := Some OFFERS_MADE_STAGE\<rparr>) = Some direct
   \<and> countOfferEvents collationKey
        (before @ [c\<lparr>stage_from := None, stage_to := Some OFFER_NOT_ACCEPTED_STAGE\<rparr>] @ after)
        startDate endDate =
      countOfferEvents collationKey (before @ after) startDate endDate"
proof -
  have "classify (c\<lparr>stage_from := None, stage_to := Some OFFER_NOT_ACCEPTED_STAGE\<rparr>) = None"
    using stage_names_distinct by (simp add: classify_def)
  then have "countOfferEvents collationKey
        (before @ [c\<lparr>stage_from := None, stage_to := Some OFFER_NOT_ACCEPTED_STAGE\<rparr>] @ after)
        startDate endDate =
      countOfferEvents collationKey (before @ after) startDate endDate"
    by (simp add: countOfferEvents_drop)
  then show ?thesis
    by (simp add: classify_def Let_def)
qed

section \<open>Order of the input\<close>

text \<open>
  C6 (as amended). Take an input in which different ids of offer records have different
  collation keys and, when no window is given, the \<open>changed_at\<close> of every offer record
  parses. Then for every permutation of the input the count is the same and the kept events
  carry the same leads and instants, in the same order; and when any two offer events in
  the window that agree in lead and instant are the same event, the whole result is the
  same.
\<close>

theorem count_order_independent:
  assumes perm: "mset stageChanges' = mset stageChanges"
    and parse: "startDate = None \<or> endDate = None \<Longrightarrow>
      \<forall>c \<in> set stageChanges. classify c \<noteq> None \<longrightarrow> changed_at c \<noteq> Invalid_Date"
    and ids: "inj_on collationKey (person_id ` {c \<in> set stageChanges. classify c \<noteq> None})"
  shows "count_res (countOfferEvents collationKey stageChanges' startDate endDate) =
           count_res (countOfferEvents collationKey stageChanges startDate endDate)
       \<and> map leadTime (offerEvents (countOfferEvents collationKey stageChanges' startDate endDate)) =
           map leadTime (offerEvents (countOfferEvents collationKey stageChanges startDate endDate))
       \<and> (inj_on leadTime (set (collectOfferEvents (filterChanges stageChanges startDate endDate)))
           \<longrightarrow> countOfferEvents collationKey stageChanges' startDate endDate =
                countOfferEvents collationKey stageChanges startDate endDate)"
proof -
  define es where "es = collectOfferEvents (filterChanges stageChanges startDate endDate)"
  define es' where "es' = collectOfferEvents (filterChanges stageChanges' startDate endDate)"
  have permuted: "mset es' = mset es"
    unfolding es_def es'_def using perm by (intro mset_collectOfferEvents mset_filterChanges)
  have valid: "Invalid_Date \<notin> changed_at ` set es"
    unfolding es_def using parse by (rule offers_parse)
  have inj: "inj_on collationKey (person_id ` set es)"
    unfolding es_def using ids by (rule offers_inj)
  have keys: "map leadTime (sortEvents collationKey es') = map leadTime (sortEvents collationKey es)"
    using permuted valid inj by (rule leadTime_sortEvents_perm)
  have res: "offerEvents (countOfferEvents collationKey stageChanges startDate endDate) =
        dedupLoop Map.empty (sortEvents collationKey es)"
    "offerEvents (countOfferEvents collationKey stageChanges' startDate endDate) =
        dedupLoop Map.empty (sortEvents collationKey es')"
    by (simp_all add: offerEvents_countOfferEvents es_def es'_def)
  have kept: "map leadTime (offerEvents (countOfferEvents collationKey stageChanges' startDate endDate)) =
           map leadTime (offerEvents (countOfferEvents collationKey stageChanges startDate endDate))"
    unfolding res using keys by (rule leadTime_dedupLoop)
  then have "length (map leadTime
          (offerEvents (countOfferEvents collationKey stageChanges' startDate endDate))) =
        length (map leadTime
          (offerEvents (countOfferEvents collationKey stageChanges startDate endDate)))"
    by simp
  then have cnt: "count_res (countOfferEvents collationKey stageChanges' startDate endDate) =
           count_res (countOfferEvents collationKey stageChanges startDate endDate)"
    by (simp add: count_res_countOfferEvents)
  have same: "countOfferEvents collationKey stageChanges' startDate endDate =
                countOfferEvents collationKey stageChanges startDate endDate"
    if no_ties: "inj_on leadTime (set es)"
  proof -
    have "set es' = set es"
      using permuted by (rule mset_eq_setD)
    with no_ties
    have "inj_on leadTime (set (sortEvents collationKey es') \<union> set (sortEvents collationKey es))"
      by (simp add: set_sortEvents)
    then have "sortEvents collationKey es' = sortEvents collationKey es"
      using keys by (simp add: inj_on_map_eq_map)
    then show ?thesis
      by (simp add: countOfferEvents_def es_def es'_def)
  qed
  show ?thesis
    using cnt kept same unfolding es_def by blast
qed

text \<open>
  The theorem at three offers of two leads, in two input orders; the ids are told apart by
  their code units.
\<close>

theorem count_order_independent_witness:
  "mset [directOffer ''L1'' ''Ann'' ''Lee'' None ''2026-01-06T10:00:00Z'' 1767693600000,
         directOffer ''L2'' ''Bo'' ''Ray'' None ''2026-01-05T14:00:00Z'' 1767621600000,
         directOffer ''L2'' ''Bo'' ''Ray'' None ''2026-01-05T10:00:00Z'' 1767607200000]
     = mset [directOffer ''L2'' ''Bo'' ''Ray'' None ''2026-01-05T14:00:00Z'' 1767621600000,
         directOffer ''L1'' ''Ann'' ''Lee'' None ''2026-01-06T10:00:00Z'' 1767693600000,
         directOffer ''L2'' ''Bo'' ''Ray'' None ''2026-01-05T10:00:00Z'' 1767607200000]
   \<and> Invalid_Date \<notin> changed_at ` set
        [directOffer ''L2'' ''Bo'' ''Ray'' None ''2026-01-05T14:00:00Z'' 1767621600000,
         directOffer ''L1'' ''Ann'' ''Lee'' None ''2026-01-06T10:00:00Z'' 1767693600000,
         directOffer ''L2'' ''Bo'' ''Ray'' None ''2026-01-05T10:00:00Z'' 1767607200000]
   \<and> inj_on id (person_id ` set
        [directOffer ''L2'' ''Bo'' ''Ray'' None ''2026-01-05T14:00:00Z'' 1767621600000,
         directOffer ''L1'' ''Ann'' ''Lee'' None ''2026-01-06T10:00:00Z'' 1767693600000,
         directOffer ''L2'' ''Bo'' ''Ray'' None ''2026-01-05T10:00:00Z'' 1767607200000])
   \<and> inj_on leadTime (set (collectOfferEvents (filterChanges
        [directOffer ''L2'' ''Bo'' ''Ray'' None ''2026-01-05T14:00:00Z'' 1767621600000,
         directOffer ''L1'' ''Ann'' ''Lee'' None ''2026-01-06T10:00:00Z'' 1767693600000,
         directOffer ''L2'' ''Bo'' ''Ray'' None ''2026-01-05T10:00:00Z'' 1767607200000]
        None None)))
   \<and> countOfferEvents id
        [directOffer ''L1'' ''Ann'' ''Lee'' None ''2026-01-06T10:00:00Z'' 1767693600000,
         directOffer ''L2'' ''Bo'' ''Ray'' None ''2026-01-05T14:00:00Z'' 1767621600000,
         directOffer ''L2'' ''Bo'' ''Ray'' None ''2026-01-05T10:00:00Z'' 1767607200000] None None
     = countOfferEvents id
        [directOffer ''L2'' ''Bo'' ''Ray'' None ''2026-01-05T14:00:00Z'' 1767621600000,
         directOffer ''L1'' ''Ann'' ''Lee'' None ''2026-01-06T10:00:00Z'' 1767693600000,
         directOffer ''L2'' ''Bo'' ''Ray'' None ''2026-01-05T10:00:00Z'' 1767607200000] None None
   \<and> count_res (countOfferEvents id
        [directOffer ''L1'' ''Ann'' ''Lee'' None ''2026-01-06T10:00:00Z'' 1767693600000,
         directOffer ''L2'' ''Bo'' ''Ray'' None ''2026-01-05T14:00:00Z'' 1767621600000,
         directOffer ''L2'' ''Bo'' ''Ray'' None ''2026-01-05T10:00:00Z'' 1767607200000] None None)
     = count_res (countOfferEvents id
        [directOffer ''L2'' ''Bo'' ''Ray'' None ''2026-01-05T14:00:00Z'' 1767621600000,
         directOffer ''L1'' ''Ann'' ''Lee'' None ''2026-01-06T10:00:00Z'' 1767693600000,
         directOffer ''L2'' ''Bo'' ''Ray'' None ''2026-01-05T10:00:00Z'' 1767607200000] None None)"
proof -
  have perm: "mset [directOffer ''L1'' ''Ann'' ''Lee'' None ''2026-01-06T10:00:00Z'' 1767693600000,
         directOffer ''L2'' ''Bo'' ''Ray'' None ''2026-01-05T14:00:00Z'' 1767621600000,
         directOffer ''L2'' ''Bo'' ''Ray'' None ''2026-01-05T10:00:00Z'' 1767607200000]
     = mset [directOffer ''L2'' ''Bo'' ''Ray'' None ''2026-01-05T14:00:00Z'' 1767621600000,
         directOffer ''L1'' ''Ann'' ''Lee'' None ''2026-01-06T10:00:00Z'' 1767693600000,
         directOffer ''L2'' ''Bo'' ''Ray'' None ''2026-01-05T10:00:00Z'' 1767607200000]"
    by simp
  have parse: "\<forall>c \<in> set
        [directOffer ''L2'' ''Bo'' ''Ray'' None ''2026-01-05T14:00:00Z'' 1767621600000,
         directOffer ''L1'' ''Ann'' ''Lee'' None ''2026-01-06T10:00:00Z'' 1767693600000,
         directOffer ''L2'' ''Bo'' ''Ray'' None ''2026-01-05T10:00:00Z'' 1767607200000].
      classify c \<noteq> None \<longrightarrow> changed_at c \<noteq> Invalid_Date"
    by simp
  have ids: "inj_on id (person_id ` {c \<in> set
        [directOffer ''L2'' ''Bo'' ''Ray'' None ''2026-01-05T14:00:00Z'' 1767621600000,
         directOffer ''L1'' ''Ann'' ''Lee'' None ''2026-01-06T10:00:00Z'' 1767693600000,
         directOffer ''L2'' ''Bo'' ''Ray'' None ''2026-01-05T10:00:00Z'' 1767607200000].
      classify c \<noteq> None})"
    by simp
  have no_ties: "inj_on leadTime (set (collectOfferEvents (filterChanges
        [directOffer ''L2'' ''Bo'' ''Ray'' None ''2026-01-05T14:00:00Z'' 1767621600000,
         directOffer ''L1'' ''Ann'' ''Lee'' None ''2026-01-06T10:00:00Z'' 1767693600000,
         directOffer ''L2'' ''Bo'' ''Ray'' None ''2026-01-05T10:00:00Z'' 1767607200000]
        None None)))"
    by (simp add: classify_def offerEvent_def leadTime_def)
  have parses: "Invalid_Date \<notin> changed_at ` set
        [directOffer ''L2'' ''Bo'' ''Ray'' None ''2026-01-05T14:00:00Z'' 1767621600000,
         directOffer ''L1'' ''Ann'' ''Lee'' None ''2026-01-06T10:00:00Z'' 1767693600000,
         directOffer ''L2'' ''Bo'' ''Ray'' None ''2026-01-05T10:00:00Z'' 1767607200000]"
    by simp
  have told_apart: "inj_on id (person_id ` set
        [directOffer ''L2'' ''Bo'' ''Ray'' None ''2026-01-05T14:00:00Z'' 1767621600000,
         directOffer ''L1'' ''Ann'' ''Lee'' None ''2026-01-06T10:00:00Z'' 1767693600000,
         directOffer ''L2'' ''Bo'' ''Ray'' None ''2026-01-05T10:00:00Z'' 1767607200000])"
    by simp
  show ?thesis
    using count_order_independent
        [where startDate = None and endDate = None and collationKey = id, OF perm parse ids]
      perm parses told_apart no_ties
    by blast
qed

text \<open>
  C6 as stated fails when different offer events of one lead share a timestamp: the sort is
  stable, so the one that comes first in the input is the one kept. Here a direct offer and
  an implicit offer of lead L1 carry the same \<open>changed_at\<close>.
\<close>

theorem order_independence_tie_counterexample:
  "set (offerEvents (countOfferEvents id
        [directOffer ''L1'' ''Ann'' ''Lee'' (Some ''ACQ - Needs Offer'')
           ''2026-01-05T10:00:00Z'' 1767607200000,
         \<lparr>person_id = ''L1'', first_name = ''Ann'', last_name = ''Lee'',
          stage_from = Some ''ACQ - Needs Offer'', stage_to = Some OFFER_NOT_ACCEPTED_STAGE,
          changed_at_text = ''2026-01-05T10:00:00Z'', changed_at = Date 1767607200000\<rparr>]
        None None))
   \<noteq> set (offerEvents (countOfferEvents id
        [\<lparr>person_id = ''L1'', first_name = ''Ann'', last_name = ''Lee'',
          stage_from = Some ''ACQ - Needs Offer'', stage_to = Some OFFER_NOT_ACCEPTED_STAGE,
          changed_at_text = ''2026-01-05T10:00:00Z'', changed_at = Date 1767607200000\<rparr>,
         directOffer ''L1'' ''Ann'' ''Lee'' (Some ''ACQ - Needs Offer'')
           ''2026-01-05T10:00:00Z'' 1767607200000]
        None None))"
  by (simp add: countOfferEvents_def Let_def classify_def offerEvent_def sortCompare_def
      compareFn_def dedupe_dedupLoop getProperty_def OBJECT_PROTOTYPE_PROPERTIES_def
      PRE_OFFER_STAGES_def OFFERS_MADE_STAGE_def OFFER_NOT_ACCEPTED_STAGE_def)

text \<open>
  The condition that \<open>changed_at\<close> parses is needed for the count as well. Against an
  Invalid Date the comparator returns \<open>NaN\<close>, the sort leaves these three events where they
  are, and the place of the record in the input decides whether it becomes the anchor of
  its lead.
\<close>

lemma count_depends_on_place_of_invalid_date:
  "count_res (countOfferEvents id
     [\<lparr>person_id = ''L1'', first_name = ''Ann'', last_name = ''Lee'',
       stage_from = Some ''ACQ - Needs Offer'', stage_to = Some OFFERS_MADE_STAGE,
       changed_at_text = ''soon'', changed_at = Invalid_Date\<rparr>,
      directOffer ''L1'' ''Ann'' ''Lee'' (Some ''ACQ - Needs Offer'')
        ''2026-01-05T10:00:00Z'' 1767607200000,
      directOffer ''L1'' ''Ann'' ''Lee'' (Some ''ACQ - Needs Offer'')
        ''2026-01-07T10:00:00Z'' 1767780000000] None None) = 1
   \<and> count_res (countOfferEvents id
     [directOffer ''L1'' ''Ann'' ''Lee'' (Some ''ACQ - Needs Offer'')
        ''2026-01-05T10:00:00Z'' 1767607200000,
      \<lparr>person_id = ''L1'', first_name = ''Ann'', last_name = ''Lee'',
       stage_from = Some ''ACQ - Needs Offer'', stage_to = Some OFFERS_MADE_STAGE,
       changed_at_text = ''soon'', changed_at = Invalid_Date\<rparr>,
      directOffer ''L1'' ''Ann'' ''Lee'' (Some ''ACQ - Needs Offer'')
        ''2026-01-07T10:00:00Z'' 1767780000000] None None) = 2"
  by (simp add: countOfferEvents_def Let_def classify_def offerEvent_def sortCompare_def
      compareFn_def dedupe_dedupLoop getProperty_def OBJECT_PROTOTYPE_PROPERTIES_def)

section \<open>Malformed records\<close>

text \<open>
  C7 (as amended). A record without \<open>stage_to\<close> is no offer event: removing it changes
  nothing in the result, and no kept event lacks \<open>stage_to\<close>, for every input and bounds.
  When both bounds are given, a record whose \<open>changed_at\<close> does not parse is dropped by the
  date filter: removing it changes nothing, and every kept event has a \<open>changed_at\<close> that
  parses. Classification itself never reads \<open>changed_at\<close>. The function is total.
\<close>

theorem malformed_records_skipped:
  "classify (c\<lparr>stage_to := None\<rparr>) = None
   \<and> countOfferEvents collationKey (before @ [c\<lparr>stage_to := None\<rparr>] @ after) startDate endDate =
       countOfferEvents collationKey (before @ after) startDate endDate
   \<and> None \<notin> stage_to ` set (offerEvents (countOfferEvents collationKey cs startDate endDate))
   \<and> countOfferEvents collationKey (before @ [c\<lparr>changed_at := Invalid_Date\<rparr>] @ after)
         (Some s) (Some e) =
       countOfferEvents collationKey (before @ after) (Some s) (Some e)
   \<and> Invalid_Date \<notin>
       changed_at ` set (offerEvents (countOfferEvents collationKey cs (Some s) (Some e)))
   \<and> classify (c\<lparr>changed_at := d\<rparr>) = classify c"
proof -
  have none: "classify (c\<lparr>stage_to := None\<rparr>) = None"
    by (simp add: classify_def)
  then have drop: "countOfferEvents collationKey (before @ [c\<lparr>stage_to := None\<rparr>] @ after)
        startDate endDate =
       countOfferEvents collationKey (before @ after) startDate endDate"
    by (simp add: countOfferEvents_drop)
  have stage: "None \<notin> stage_to ` set (offerEvents (countOfferEvents collationKey cs startDate endDate))"
    using set_offerEvents_countOfferEvents [of collationKey cs startDate endDate]
      stage_to_collectOfferEvents [of "filterChanges cs startDate endDate"] by blast
  have win: "countOfferEvents collationKey (before @ [c\<lparr>changed_at := Invalid_Date\<rparr>] @ after)
         (Some s) (Some e) =
       countOfferEvents collationKey (before @ after) (Some s) (Some e)"
    using filterChanges_drop_invalid [of before c after s e]
    by (simp add: countOfferEvents_def)
  have "Invalid_Date \<notin> changed_at ` set (collectOfferEvents (filterChanges cs (Some s) (Some e)))"
    by (rule offers_parse) simp
  with set_offerEvents_countOfferEvents [of collationKey cs "Some s" "Some e"]
  have valid: "Invalid_Date \<notin>
       changed_at ` set (offerEvents (countOfferEvents collationKey cs (Some s) (Some e)))"
    by blast
  have "classify (c\<lparr>changed_at := d\<rparr>) = classify c"
    by (simp add: classify_def)
  with none drop stage win valid show ?thesis by blast
qed

text \<open>
  C7 as stated fails in the call without bounds: a record to "ACQ - Offers Made" whose
  \<open>changed_at\<close> does not parse is classified \<open>direct\<close>, is kept as the first event of its
  lead, and every later offer of that lead is dropped, since \<open>hoursDiff\<close> against an Invalid
  Date is \<open>NaN\<close>. Without the record the two other offers are both kept.
\<close>

theorem malformed_changed_at_counterexample:
  "countOfferEvents id
     [\<lparr>person_id = ''L1'', first_name = ''Ann'', last_name = ''Lee'',
       stage_from = Some ''ACQ - Needs Offer'', stage_to = Some OFFERS_MADE_STAGE,
       changed_at_text = ''soon'', changed_at = Invalid_Date\<rparr>,
      directOffer ''L1'' ''Ann'' ''Lee'' (Some ''ACQ - Needs Offer'')
        ''2026-01-05T10:00:00Z'' 1767607200000,
      directOffer ''L1'' ''Ann'' ''Lee'' (Some ''ACQ - Needs Offer'')
        ''2026-01-07T10:00:00Z'' 1767780000000] None None
   = \<lparr>count_res = 1,
      offerEvents =
        [\<lparr>person_id = ''L1'', first_name = ''Ann'', last_name = ''Lee'',
          stage_from = Some ''ACQ - Needs Offer'', stage_to = Some OFFERS_MADE_STAGE,
          changed_at_text = ''soon'', changed_at = Invalid_Date, offer_type = direct\<rparr>]\<rparr>
   \<and> countOfferEvents id
     [directOffer ''L1'' ''Ann'' ''Lee'' (Some ''ACQ - Needs Offer'')
        ''2026-01-05T10:00:00Z'' 1767607200000,
      directOffer ''L1'' ''Ann'' ''Lee'' (Some ''ACQ - Needs Offer'')
        ''2026-01-07T10:00:00Z'' 1767780000000] None None
   = \<lparr>count_res = 2,
      offerEvents =
        [offerEvent (directOffer ''L1'' ''Ann'' ''Lee'' (Some ''ACQ - Needs Offer'')
           ''2026-01-05T10:00:00Z'' 1767607200000) direct,
         offerEvent (directOffer ''L1'' ''Ann'' ''Lee'' (Some ''ACQ - Needs Offer'')
           ''2026-01-07T10:00:00Z'' 1767780000000) direct]\<rparr>"
  by (simp add: countOfferEvents_def Let_def classify_def offerEvent_def sortCompare_def
      compareFn_def dedupe_dedupLoop getProperty_def OBJECT_PROTOTYPE_PROPERTIES_def)

section \<open>Empty input and single bounds\<close>

text \<open>
  C9. On the empty array the function returns count 0 and an empty list of events, with or
  without a date window; the function is total, no input makes it fail.
\<close>

theorem countOfferEvents_empty:
  "countOfferEvents collationKey [] startDate endDate = \<lparr>count_res = 0, offerEvents = []\<rparr>"
  by (cases startDate; cases endDate) (simp_all add: countOfferEvents_def dedupe_def)

text \<open>
  C10. With exactly one of the two bounds given, no record is filtered out: the result is
  that of the call without bounds.
\<close>

theorem countOfferEvents_single_bound:
  "countOfferEvents collationKey stageChanges (Some startDate) None =
     countOfferEvents collationKey stageChanges None None
   \<and> countOfferEvents collationKey stageChanges None (Some endDate) =
     countOfferEvents collationKey stageChanges None None"
  by (simp add: countOfferEvents_def)

end
